theory Spec2Isabelle
  imports Main "HOL-Library.Word"
begin

section \<open>Identifiers of the game runtime\<close>

text \<open>
  \<open>XUserHandle\<close> is an opaque pointer, \<open>XUserLocalId\<close> a struct around one 64-bit
  \<open>value\<close>, \<open>APP_LOCAL_DEVICE_ID\<close> a struct around \<open>BYTE value[32]\<close>: 256 raw bits,
  read byte by byte with \<open>device_bytes\<close>. \<open>HRESULT\<close> is a signed 32-bit code.
\<close>

type_synonym XUserHandle = nat
type_synonym XUserLocalId = "64 word"
type_synonym APP_LOCAL_DEVICE_ID = "256 word"
type_synonym HRESULT = "32 word"

definition SUCCEEDED :: "HRESULT \<Rightarrow> bool" where
  "SUCCEEDED hr = (0 \<le> sint hr)"

definition device_bytes :: "APP_LOCAL_DEVICE_ID \<Rightarrow> 8 word list" where
  "device_bytes d = map (\<lambda>i. ucast (drop_bit (8 * i) d)) [0..<32]"

text \<open>
  Modelled from the spec: \<open>Platform::MemoryCompare\<close> (Engine/Platform/Platform.h is not
  part of the sources at hand), "a fixed-width byte-exact comparison": the two buffers are
  compared byte by byte over \<open>size\<close> bytes, the result is zero when all of them agree and
  the difference of the first pair that does not otherwise.
\<close>

fun MemoryCompare :: "8 word list \<Rightarrow> 8 word list \<Rightarrow> nat \<Rightarrow> int" where
  "MemoryCompare (a # as) (b # bs) (Suc n) =
     (if a = b then MemoryCompare as bs n else int (unat a) - int (unat b))"
| "MemoryCompare _ _ _ = 0"

text \<open>\<open>operator==(const APP_LOCAL_DEVICE_ID&, const APP_LOCAL_DEVICE_ID&)\<close>, with
  \<open>sizeof(APP_LOCAL_DEVICE_ID) = 32\<close>.\<close>

definition device_eq :: "APP_LOCAL_DEVICE_ID \<Rightarrow> APP_LOCAL_DEVICE_ID \<Rightarrow> bool" where
  "device_eq l r = (MemoryCompare (device_bytes l) (device_bytes r) 32 = 0)"

section \<open>Fixed-capacity arrays\<close>

text \<open>
  Modelled from the spec: \<open>Array<T, FixedAllocation<N>>\<close> (Engine/Core/Collections/Array.h
  is not part of the sources at hand). The spec describes the two registries as bounded
  ordered collections, "fixed-capacity inline arrays" whose order is stable and whose
  overflow behaviour is "silently ignoring an add past capacity". An array is its list of
  items in index order; \<open>Add\<close> appends while there is room, \<open>AddOne\<close> appends a
  default-constructed item and hands back its index, \<open>Find\<close> gives the first index whose
  item compares equal, \<open>RemoveAt\<close> takes the item at an index out, \<open>Remove\<close> takes the
  first equal item out. The statements below speak of a removal through \<open>RemoveAt\<close>
  itself, not of the order in which it leaves the items that remain.
\<close>

definition Array_Add :: "nat \<Rightarrow> 'a list \<Rightarrow> 'a \<Rightarrow> 'a list" where
  "Array_Add capacity xs x = (if length xs < capacity then xs @ [x] else xs)"

definition Array_AddOne :: "nat \<Rightarrow> 'a \<Rightarrow> 'a list \<Rightarrow> ('a list \<times> nat) option" where
  "Array_AddOne capacity dflt xs =
     (if length xs < capacity then Some (xs @ [dflt], length xs) else None)"

fun Array_Find :: "('a \<Rightarrow> 'a \<Rightarrow> bool) \<Rightarrow> 'a list \<Rightarrow> 'a \<Rightarrow> nat option" where
  "Array_Find eq [] item = None"
| "Array_Find eq (x # xs) item =
     (if eq x item then Some 0 else map_option Suc (Array_Find eq xs item))"

definition Array_RemoveAt :: "'a list \<Rightarrow> nat \<Rightarrow> 'a list" where
  "Array_RemoveAt xs i = take i xs @ drop (Suc i) xs"

definition Array_Remove :: "('a \<Rightarrow> 'a \<Rightarrow> bool) \<Rightarrow> 'a list \<Rightarrow> 'a \<Rightarrow> 'a list" where
  "Array_Remove eq xs item =
     (case Array_Find eq xs item of None \<Rightarrow> xs | Some i \<Rightarrow> Array_RemoveAt xs i)"

section \<open>Users and the platform state\<close>

record User =
  UserHandle :: XUserHandle
  LocalId :: XUserLocalId
  AssociatedDevices :: "APP_LOCAL_DEVICE_ID list"

datatype XUserChangeEvent = SignedInAgain | SignedOut | OtherChange nat

record XUserDeviceAssociationChange =
  deviceId :: APP_LOCAL_DEVICE_ID
  oldUser :: XUserLocalId
  newUser :: XUserLocalId

text \<open>An \<open>XAsyncBlock\<close> of a finished \<open>XUserAddAsync\<close>: what \<open>XUserAddResult\<close> will return
  for it, and the handle it stores on success.\<close>

record XAsyncBlock =
  XUserAddResult_hr :: HRESULT
  XUserAddResult_user :: XUserHandle

type_synonym MSG = nat

text \<open>What the code does, in the order it does it: the lines it logs, the calls into the
  runtime and the window system, the two public events, and the removal of an entry from
  \<open>Users\<close> (with the index it is removed at). \<open>Window_procedure\<close> stands for the procedure
  a message ends in when \<open>WndProc\<close> has no case for it: the window's own or
  \<open>DefWindowProc\<close>.\<close>

datatype effect =
    LogUserEvent XUserLocalId XUserChangeEvent
  | LogDeviceAssociation APP_LOCAL_DEVICE_ID XUserLocalId XUserLocalId
  | XUserCloseHandle XUserHandle
  | Users_RemovedAt nat
  | DeleteAsyncBlock XAsyncBlock
  | GDKInput_Update
  | TranslateMessage MSG
  | DispatchMessage MSG
  | LogSuspending
  | OnSuspend_called
  | SetEvent_SuspendComplete
  | LogResuming
  | OnResume_called
  | Window_procedure MSG
  | XLaunchUri XUserHandle string

text \<open>The entries of the task queue's completion port, one per callback to run.\<close>

datatype completion =
    UserAddCompleted XAsyncBlock
  | UserChanged XUserLocalId XUserChangeEvent
  | DeviceAssociationChanged XUserDeviceAssociationChange

text \<open>The registry, what has been done so far, the two queues \<open>Tick\<close> drains, the time
  spent waiting in \<open>XTaskQueueDispatch\<close>, and what the window procedure reads and writes:
  the flag \<open>IsSuspended\<close> and the state of the events \<open>PlmSuspendComplete\<close> and
  \<open>PlmSignalResume\<close>.\<close>

record gdk =
  Users :: "User list"
  effects :: "effect list"
  TaskQueue :: "completion list"
  MessageQueue :: "MSG list"
  waitedMs :: nat
  isSuspended :: bool
  suspendCompleteSet :: bool
  signalResumeSet :: bool

definition Users_capacity :: nat where
  "Users_capacity = 8"

definition AssociatedDevices_capacity :: nat where
  "AssociatedDevices_capacity = 32"

text \<open>The state the globals start in: no user, nothing queued.\<close>

definition gdk_init :: gdk where
  "gdk_init =
     \<lparr>Users = [], effects = [], TaskQueue = [], MessageQueue = [], waitedMs = 0,
      isSuspended = False, suspendCompleteSet = False, signalResumeSet = False\<rparr>"

definition emit :: "effect \<Rightarrow> gdk \<Rightarrow> gdk" where
  "emit e s = s\<lparr>effects := effects s @ [e]\<rparr>"

subsection \<open>\<open>User::Set\<close> and \<open>User::Unset\<close>\<close>

definition User_Set :: "XUserHandle \<Rightarrow> XUserLocalId \<Rightarrow> User \<Rightarrow> User" where
  "User_Set userHandle localId u =
     u\<lparr>UserHandle := userHandle, LocalId := localId, AssociatedDevices := []\<rparr>"

text \<open>\<open>Users[i].Unset()\<close>: the handle of entry \<open>i\<close> is closed, its device list cleared;
  the entry stays in the array.\<close>

definition User_Unset_at :: "nat \<Rightarrow> gdk \<Rightarrow> gdk" where
  "User_Unset_at i s =
     (emit (XUserCloseHandle (UserHandle (Users s ! i))) s)
       \<lparr>Users := (Users s)[i := (Users s ! i)\<lparr>AssociatedDevices := []\<rparr>]\<rparr>"

text \<open>The item \<open>AddOne\<close> constructs; \<open>Set\<close> overwrites each of its fields.\<close>

definition User_default :: User where
  "User_default = \<lparr>UserHandle = 0, LocalId = 0, AssociatedDevices = []\<rparr>"

text \<open>The session that a sign-in leaves for the handle \<open>k\<close> when the runtime gives the
  handle \<open>k\<close> the local id \<open>k\<close>.\<close>

definition session :: "nat \<Rightarrow> User" where
  "session k = User_Set k (of_nat k) User_default"

subsection \<open>\<open>FindUser\<close>\<close>

text \<open>The pointer into \<open>Users\<close> that \<open>FindUser\<close> returns is the index of the first entry
  with the local id, \<open>nullptr\<close> is \<open>None\<close>.\<close>

fun FindUser :: "User list \<Rightarrow> XUserLocalId \<Rightarrow> nat option" where
  "FindUser [] lid = None"
| "FindUser (user # users) lid =
     (if LocalId user = lid then Some 0 else map_option Suc (FindUser users lid))"

subsection \<open>\<open>UserChangeEventCallback\<close>\<close>

text \<open>\<open>Users.RemoveAt(i)\<close>, recorded among the effects when it happens, and the loop over
  the indices of \<open>Users\<close> that the sign-out runs: at the first entry with the local id it
  calls \<open>Unset\<close>, then \<open>RemoveAt\<close>, and breaks.\<close>

definition Users_RemoveAt :: "nat \<Rightarrow> gdk \<Rightarrow> gdk" where
  "Users_RemoveAt i s = emit (Users_RemovedAt i) (s\<lparr>Users := Array_RemoveAt (Users s) i\<rparr>)"

function SignedOut_loop :: "XUserLocalId \<Rightarrow> nat \<Rightarrow> gdk \<Rightarrow> gdk" where
  "SignedOut_loop userLocalId i s =
     (if i < length (Users s) then
        (if LocalId (Users s ! i) = userLocalId then Users_RemoveAt i (User_Unset_at i s)
         else SignedOut_loop userLocalId (Suc i) s)
      else s)"
  by pat_completeness auto
termination
  by (relation "measure (\<lambda>(userLocalId, i, s). length (Users s) - i)") auto

declare SignedOut_loop.simps [simp del]

definition UserChangeEventCallback :: "XUserLocalId \<Rightarrow> XUserChangeEvent \<Rightarrow> gdk \<Rightarrow> gdk" where
  "UserChangeEventCallback userLocalId event s =
     (let s0 = emit (LogUserEvent userLocalId event) s in
      case event of
        SignedInAgain \<Rightarrow> s0
      | SignedOut \<Rightarrow> SignedOut_loop userLocalId 0 s0
      | OtherChange _ \<Rightarrow> s0)"

subsection \<open>\<open>UserDeviceAssociationChangedCallback\<close>\<close>

definition detach_device :: "XUserDeviceAssociationChange \<Rightarrow> gdk \<Rightarrow> gdk" where
  "detach_device change s =
     (case FindUser (Users s) (oldUser change) of
        None \<Rightarrow> s
      | Some i \<Rightarrow> s\<lparr>Users := (Users s)[i := (Users s ! i)
          \<lparr>AssociatedDevices :=
             Array_Remove device_eq (AssociatedDevices (Users s ! i)) (deviceId change)\<rparr>]\<rparr>)"

definition attach_device :: "XUserDeviceAssociationChange \<Rightarrow> gdk \<Rightarrow> gdk" where
  "attach_device change s =
     (case FindUser (Users s) (newUser change) of
        None \<Rightarrow> s
      | Some i \<Rightarrow> s\<lparr>Users := (Users s)[i := (Users s ! i)
          \<lparr>AssociatedDevices :=
             Array_Add AssociatedDevices_capacity (AssociatedDevices (Users s ! i))
               (deviceId change)\<rparr>]\<rparr>)"

definition UserDeviceAssociationChangedCallback ::
    "XUserDeviceAssociationChange \<Rightarrow> gdk \<Rightarrow> gdk" where
  "UserDeviceAssociationChangedCallback change s =
     attach_device change (detach_device change
       (emit (LogDeviceAssociation (deviceId change) (oldUser change) (newUser change)) s))"

subsection \<open>\<open>AddUserComplete\<close>\<close>

text \<open>\<open>XUserGetLocalId\<close> belongs to the runtime; the code calls it twice on the same
  handle. It is the parameter \<open>getLocalId\<close>.\<close>

definition AddUserComplete :: "(XUserHandle \<Rightarrow> XUserLocalId) \<Rightarrow> XAsyncBlock \<Rightarrow> gdk \<Rightarrow> gdk" where
  "AddUserComplete getLocalId ab s =
     emit (DeleteAsyncBlock ab)
       (if SUCCEEDED (XUserAddResult_hr ab) then
          (let userHandle = XUserAddResult_user ab;
               userLocalId = getLocalId userHandle;
               localId = getLocalId userHandle
           in if FindUser (Users s) localId = None then
                (case Array_AddOne Users_capacity User_default (Users s) of
                   None \<Rightarrow> s
                 | Some (users, i) \<Rightarrow>
                     s\<lparr>Users := users[i := User_Set userHandle userLocalId (users ! i)]\<rparr>)
              else s)
        else s)"

subsection \<open>\<open>CanOpenUrl\<close> and \<open>OpenUrl\<close>\<close>

datatype error = IndexOutOfRange

definition CanOpenUrl :: "gdk \<Rightarrow> string \<Rightarrow> bool" where
  "CanOpenUrl s url = (Users s \<noteq> [])"

text \<open>\<open>Users[0]\<close> is read with no check before it; the read outside the array's count is
  the error branch.\<close>

definition OpenUrl :: "gdk \<Rightarrow> string \<Rightarrow> error + gdk" where
  "OpenUrl s url =
     (if 0 < length (Users s) then Inr (emit (XLaunchUri (UserHandle (Users s ! 0)) url) s)
      else Inl IndexOutOfRange)"

section \<open>The task queue and \<open>Tick\<close>\<close>

text \<open>The callback that an entry of the completion port stands for.\<close>

definition run_completion :: "(XUserHandle \<Rightarrow> XUserLocalId) \<Rightarrow> completion \<Rightarrow> gdk \<Rightarrow> gdk" where
  "run_completion getLocalId c s =
     (case c of
        UserAddCompleted ab \<Rightarrow> AddUserComplete getLocalId ab s
      | UserChanged userLocalId event \<Rightarrow> UserChangeEventCallback userLocalId event s
      | DeviceAssociationChanged change \<Rightarrow> UserDeviceAssociationChangedCallback change s)"

text \<open>A sequence of completions, each applied to the state the one before it left.\<close>

fun run_completions :: "(XUserHandle \<Rightarrow> XUserLocalId) \<Rightarrow> completion list \<Rightarrow> gdk \<Rightarrow> gdk" where
  "run_completions getLocalId [] s = s"
| "run_completions getLocalId (c # cs) s =
     run_completions getLocalId cs (run_completion getLocalId c s)"











section \<open>Device lists without repetition\<close>







text \<open>What a change does to one session, seen from the session: the detach takes the first
  entry equal to the device out of the list of a session of the old user, the attach appends
  the device to the list of a session of the new user.\<close>

definition detached :: "APP_LOCAL_DEVICE_ID \<Rightarrow> XUserLocalId \<Rightarrow> User \<Rightarrow> User" where
  "detached d lid u =
     (if LocalId u = lid then u\<lparr>AssociatedDevices := remove1 d (AssociatedDevices u)\<rparr> else u)"


section \<open>Suspending and resuming\<close>

text \<open>
  The handshake runs on two threads: the thread on which the system calls the lambda that
  \<open>OnMainWindowCreated\<close> registers, and the main thread, whose message loop calls
  \<open>WndProc\<close>. Each thread is a program counter over the statements of its code, each
  statement one step; a thread in \<open>WaitForSingleObject(..., INFINITE)\<close> stays where it is
  until the event is signalled. Handles are numbers, \<open>nullptr\<close> is 0.
\<close>

type_synonym HANDLE = nat
type_synonym HWND = nat

text \<open>What has happened so far, in order: the calls into the system, the deliveries by the
  system, and the two public events.\<close>

datatype action =
    CreateEventEx_called
  | RegisterAppStateChangeNotification_called
  | Notified bool
  | ResetEvent_PlmSuspendComplete
  | ResetEvent_PlmSignalResume
  | PostMessage_WM_USER
  | Wait_PlmSuspendComplete_returned
  | SetEvent_PlmSignalResume
  | WndProc_WM_USER
  | OnSuspend_fired
  | SetEvent_PlmSuspendComplete
  | Wait_PlmSignalResume_returned
  | OnResume_fired

text \<open>The statement the notifying thread is about to run: none (no callback in progress),
  one of the four of the branch \<open>if (quiesced)\<close>, or the one of the \<open>else\<close> branch.\<close>

datatype notifier_pc =
    N_Idle
  | N_ResetSuspendComplete
  | N_ResetSignalResume
  | N_PostMessage
  | N_WaitSuspendComplete
  | N_SetSignalResume

text \<open>The statement of \<open>case WM_USER\<close> the main thread is about to run; \<open>M_Idle\<close> when it
  is not inside that case.\<close>

datatype main_pc =
    M_Idle
  | M_SetSuspended
  | M_OnSuspend
  | M_SetSuspendComplete
  | M_WaitSignalResume
  | M_ClearSuspended
  | M_OnResume
  | M_DefWindowProc

text \<open>
  The globals \<open>IsSuspended\<close>, \<open>PlmSuspendComplete\<close>, \<open>PlmSignalResume\<close> and \<open>Plm\<close> (the
  registration, here the context pointer it was made with), the state of the two event
  objects, the number of \<open>WM_USER\<close> messages waiting in the main thread's queue, and the two
  threads.
\<close>

record lifecycle =
  IsSuspended :: bool
  PlmSuspendComplete :: HANDLE
  PlmSignalResume :: HANDLE
  Plm :: "HWND option"
  SuspendComplete_signaled :: bool
  SignalResume_signaled :: bool
  posted :: nat
  notifier :: notifier_pc
  mainThread :: main_pc
  history :: "action list"

definition lifecycle_boot :: lifecycle where
  "lifecycle_boot =
     \<lparr>IsSuspended = False, PlmSuspendComplete = 0, PlmSignalResume = 0, Plm = None,
      SuspendComplete_signaled = False, SignalResume_signaled = False, posted = 0,
      notifier = N_Idle, mainThread = M_Idle, history = []\<rparr>"

definition did :: "action \<Rightarrow> lifecycle \<Rightarrow> lifecycle" where
  "did a s = s\<lparr>history := history s @ [a]\<rparr>"

text \<open>
  \<open>OnMainWindowCreated\<close>. What \<open>CreateEventEx\<close> returns for the two events and what
  \<open>RegisterAppStateChangeNotification\<close> returns (0 when it succeeds) are parameters. With the
  flags 0 an event is created unsignalled and resets itself when a wait on it returns.
\<close>

definition OnMainWindowCreated :: "HWND \<Rightarrow> HANDLE \<Rightarrow> HANDLE \<Rightarrow> nat \<Rightarrow> lifecycle \<Rightarrow> lifecycle" where
  "OnMainWindowCreated hWnd event1 event2 registerResult s =
     (let s1 = did CreateEventEx_called (s\<lparr>PlmSuspendComplete := event1\<rparr>);
          s2 = did CreateEventEx_called (s1\<lparr>PlmSignalResume := event2\<rparr>)
      in if PlmSuspendComplete s2 = 0 \<or> PlmSignalResume s2 = 0 then s2
         else (let s3 = did RegisterAppStateChangeNotification_called s2
               in if registerResult \<noteq> 0 then s3 else s3\<lparr>Plm := Some hWnd\<rparr>))"

text \<open>Who moves next: the system starting the registered callback with \<open>quiesced\<close>, the
  notifying thread, or the main thread.\<close>

datatype thread = OS_notifies bool | Notifier | MainThread

text \<open>The system calls the callback only if one is registered, and one call at a time.\<close>

definition os_step :: "bool \<Rightarrow> lifecycle \<Rightarrow> lifecycle" where
  "os_step quiesced s =
     (if Plm s \<noteq> None \<and> notifier s = N_Idle then
        did (Notified quiesced)
          (s\<lparr>notifier := (if quiesced then N_ResetSuspendComplete else N_SetSignalResume)\<rparr>)
      else s)"

text \<open>The lambda passed to \<open>RegisterAppStateChangeNotification\<close>, statement by statement.\<close>

definition notifier_step :: "lifecycle \<Rightarrow> lifecycle" where
  "notifier_step s =
     (case notifier s of
        N_Idle \<Rightarrow> s
      | N_ResetSuspendComplete \<Rightarrow>
          did ResetEvent_PlmSuspendComplete
            (s\<lparr>SuspendComplete_signaled := False, notifier := N_ResetSignalResume\<rparr>)
      | N_ResetSignalResume \<Rightarrow>
          did ResetEvent_PlmSignalResume
            (s\<lparr>SignalResume_signaled := False, notifier := N_PostMessage\<rparr>)
      | N_PostMessage \<Rightarrow>
          did PostMessage_WM_USER
            (s\<lparr>posted := Suc (posted s), notifier := N_WaitSuspendComplete\<rparr>)
      | N_WaitSuspendComplete \<Rightarrow>
          (if SuspendComplete_signaled s then
             did Wait_PlmSuspendComplete_returned
               (s\<lparr>SuspendComplete_signaled := False, notifier := N_Idle\<rparr>)
           else s)
      | N_SetSignalResume \<Rightarrow>
          did SetEvent_PlmSignalResume (s\<lparr>SignalResume_signaled := True, notifier := N_Idle\<rparr>))"

text \<open>\<open>WndProc\<close>, \<open>case WM_USER\<close>, statement by statement; it is entered when the message
  loop takes a posted \<open>WM_USER\<close> from the queue.\<close>

definition main_step :: "lifecycle \<Rightarrow> lifecycle" where
  "main_step s =
     (case mainThread s of
        M_Idle \<Rightarrow>
          (if 0 < posted s then
             did WndProc_WM_USER (s\<lparr>posted := posted s - 1, mainThread := M_SetSuspended\<rparr>)
           else s)
      | M_SetSuspended \<Rightarrow> s\<lparr>IsSuspended := True, mainThread := M_OnSuspend\<rparr>
      | M_OnSuspend \<Rightarrow> did OnSuspend_fired (s\<lparr>mainThread := M_SetSuspendComplete\<rparr>)
      | M_SetSuspendComplete \<Rightarrow>
          did SetEvent_PlmSuspendComplete
            (s\<lparr>SuspendComplete_signaled := True, mainThread := M_WaitSignalResume\<rparr>)
      | M_WaitSignalResume \<Rightarrow>
          (if SignalResume_signaled s then
             did Wait_PlmSignalResume_returned
               (s\<lparr>SignalResume_signaled := False, mainThread := M_ClearSuspended\<rparr>)
           else s)
      | M_ClearSuspended \<Rightarrow> s\<lparr>IsSuspended := False, mainThread := M_OnResume\<rparr>
      | M_OnResume \<Rightarrow> did OnResume_fired (s\<lparr>mainThread := M_DefWindowProc\<rparr>)
      | M_DefWindowProc \<Rightarrow> s\<lparr>mainThread := M_Idle\<rparr>)"

fun step :: "thread \<Rightarrow> lifecycle \<Rightarrow> lifecycle" where
  "step (OS_notifies quiesced) s = os_step quiesced s"
| "step Notifier s = notifier_step s"
| "step MainThread s = main_step s"

text \<open>A schedule is the list of who moves; a thread that cannot move leaves the state as
  it is.\<close>

fun run :: "thread list \<Rightarrow> lifecycle \<Rightarrow> lifecycle" where
  "run [] s = s"
| "run (t # ts) s = run ts (step t s)"

text \<open>How many times something has happened so far.\<close>

definition occurred :: "action \<Rightarrow> lifecycle \<Rightarrow> nat" where
  "occurred a s = count_list (history s) a"

definition GetHasFocus :: "lifecycle \<Rightarrow> bool" where
  "GetHasFocus s = (\<not> IsSuspended s)"

text \<open>
  What holds between the two threads at every moment, in terms of how often each thing has
  happened: where the notifying thread stands in its callback fixes how many resets, posts
  and returns from its wait there have been for the notifications so far; where the main
  thread stands in \<open>case WM_USER\<close> fixes how many times the suspend event has fired and
  \<open>PlmSuspendComplete\<close> has been set for the messages taken so far; and every return from
  the wait on \<open>PlmSuspendComplete\<close>, as well as the event being signalled now, is covered
  by a \<open>SetEvent\<close> of its own.
\<close>

definition notifier_inv :: "lifecycle \<Rightarrow> bool" where
  "notifier_inv s =
     (let n = occurred (Notified True) s;
          r1 = occurred ResetEvent_PlmSuspendComplete s;
          r2 = occurred ResetEvent_PlmSignalResume s;
          p = occurred PostMessage_WM_USER s;
          r = occurred Wait_PlmSuspendComplete_returned s
      in case notifier s of
           N_Idle \<Rightarrow> r1 = n \<and> r2 = n \<and> p = n \<and> r = n
         | N_SetSignalResume \<Rightarrow> r1 = n \<and> r2 = n \<and> p = n \<and> r = n
         | N_ResetSuspendComplete \<Rightarrow> n = Suc r1 \<and> r2 = r1 \<and> p = r1 \<and> r = r1
         | N_ResetSignalResume \<Rightarrow> r1 = n \<and> n = Suc r2 \<and> p = r2 \<and> r = r2
         | N_PostMessage \<Rightarrow> r1 = n \<and> r2 = n \<and> n = Suc p \<and> r = p
         | N_WaitSuspendComplete \<Rightarrow> r1 = n \<and> r2 = n \<and> p = n \<and> n = Suc r)"

definition main_inv :: "lifecycle \<Rightarrow> bool" where
  "main_inv s =
     (let p = occurred PostMessage_WM_USER s;
          c = occurred WndProc_WM_USER s;
          f = occurred OnSuspend_fired s;
          st = occurred SetEvent_PlmSuspendComplete s;
          r = occurred Wait_PlmSuspendComplete_returned s
      in posted s + c = p \<and>
         r + (if SuspendComplete_signaled s then 1 else 0) \<le> st \<and>
         (case mainThread s of
            M_Idle \<Rightarrow> f = c \<and> st = c
          | M_SetSuspended \<Rightarrow> c = Suc f \<and> st = f
          | M_OnSuspend \<Rightarrow> c = Suc f \<and> st = f
          | M_SetSuspendComplete \<Rightarrow> f = c \<and> c = Suc st
          | _ \<Rightarrow> f = c \<and> st = c))"

definition handshake_inv :: "lifecycle \<Rightarrow> bool" where
  "handshake_inv s = (notifier_inv s \<and> main_inv s)"

text \<open>The state of the two events while the callback runs: \<open>PlmSuspendComplete\<close> is
  unsignalled from its reset until the post, \<open>PlmSignalResume\<close> from its reset until the
  callback has returned.\<close>

definition signals_inv :: "lifecycle \<Rightarrow> bool" where
  "signals_inv s =
     (case notifier s of
        N_ResetSignalResume \<Rightarrow> \<not> SuspendComplete_signaled s
      | N_PostMessage \<Rightarrow> \<not> SuspendComplete_signaled s \<and> \<not> SignalResume_signaled s
      | N_WaitSuspendComplete \<Rightarrow> \<not> SignalResume_signaled s
      | _ \<Rightarrow> True)"

section \<open>Comparing device identifiers\<close>







section \<open>The registry of users\<close>

lemma FindUser_None_iff: "FindUser us lid = None \<longleftrightarrow> lid \<notin> LocalId ` set us"
  by (induction us) auto

lemma FindUser_Some_bound: "FindUser us lid = Some i \<Longrightarrow> i < length us"
  by (induction us arbitrary: i) (auto split: if_splits)

lemma FindUser_Some_id: "FindUser us lid = Some i \<Longrightarrow> LocalId (us ! i) = lid"
  by (induction us arbitrary: i) (auto split: if_splits)

lemma FindUser_Some_first:
  "FindUser us lid = Some i \<Longrightarrow> j < i \<Longrightarrow> LocalId (us ! j) \<noteq> lid"
proof (induction us arbitrary: i j)
  case Nil
  then show ?case by simp
next
  case (Cons u us)
  then show ?case by (cases j) (auto split: if_splits)
qed

lemma Users_emit [simp]: "Users (emit e s) = Users s"
  by (simp add: emit_def)

lemma TaskQueue_emit [simp]: "TaskQueue (emit e s) = TaskQueue s"
  by (simp add: emit_def)

lemma effects_emit [simp]: "effects (emit e s) = effects s @ [e]"
  by (simp add: emit_def)

lemma Array_RemoveAt_update: "Array_RemoveAt (xs[i := x]) i = Array_RemoveAt xs i"
  by (simp add: Array_RemoveAt_def)

lemma Users_remove_user:
  "Users (Users_RemoveAt i (User_Unset_at i s)) = Array_RemoveAt (Users s) i"
  by (simp add: Users_RemoveAt_def User_Unset_at_def Array_RemoveAt_update)

lemma SignedOut_loop_drop:
  "SignedOut_loop lid i s =
     (case FindUser (drop i (Users s)) lid of None \<Rightarrow> s | Some k \<Rightarrow> Users_RemoveAt (i + k) (User_Unset_at (i + k) s))"
proof (induction lid i s rule: SignedOut_loop.induct)
  case (1 lid i s)
  show ?case
  proof (cases "i < length (Users s)")
    case False
    then show ?thesis by (subst SignedOut_loop.simps) simp
  next
    case True
    then have d: "drop i (Users s) = Users s ! i # drop (Suc i) (Users s)"
      by (simp add: Cons_nth_drop_Suc)
    show ?thesis
    proof (cases "LocalId (Users s ! i) = lid")
      case True
      with \<open>i < length (Users s)\<close> show ?thesis
        by (subst SignedOut_loop.simps) (simp add: d)
    next
      case False
      with \<open>i < length (Users s)\<close> 1 show ?thesis
        by (subst SignedOut_loop.simps) (simp add: d split: option.splits)
    qed
  qed
qed

lemma SignedOut_loop_FindUser:
  "SignedOut_loop lid 0 s =
     (case FindUser (Users s) lid of None \<Rightarrow> s | Some i \<Rightarrow> Users_RemoveAt i (User_Unset_at i s))"
  by (simp add: SignedOut_loop_drop split: option.splits)

lemma distinct_take_drop_Suc:
  assumes "distinct ys"
  shows "distinct (take i ys @ drop (Suc i) ys)"
proof -
  have "distinct (take i ys @ drop i ys)"
    using assms by simp
  then have disj: "set (take i ys) \<inter> set (drop i ys) = {}"
    by (simp only: distinct_append)
  have "set (drop (Suc i) ys) \<subseteq> set (drop i ys)"
    by (rule set_drop_subset_set_drop) simp
  with disj have "set (take i ys) \<inter> set (drop (Suc i) ys) = {}"
    by blast
  with assms show ?thesis
    by (simp add: distinct_append)
qed

lemma distinct_Array_RemoveAt:
  "distinct (map f xs) \<Longrightarrow> distinct (map f (Array_RemoveAt xs i))"
  using distinct_take_drop_Suc [of "map f xs" i]
  by (simp add: Array_RemoveAt_def take_map drop_map)


subsection \<open>What the callbacks do to the registry\<close>

lemma map_nth_update_same: "(map f us)[i := f (us ! i)] = map f us"
  by (simp add: map_update [symmetric])

lemma map_LocalId_devices_update:
  "map LocalId (us[i := (us ! i)\<lparr>AssociatedDevices := ds\<rparr>]) = map LocalId us"
  by (simp add: map_update map_nth_update_same)

lemma map_UserHandle_devices_update:
  "map UserHandle (us[i := (us ! i)\<lparr>AssociatedDevices := ds\<rparr>]) = map UserHandle us"
  by (simp add: map_update map_nth_update_same)

lemma LocalIds_detach: "map LocalId (Users (detach_device ch s)) = map LocalId (Users s)"
  by (simp add: detach_device_def map_LocalId_devices_update split: option.splits)

lemma LocalIds_attach: "map LocalId (Users (attach_device ch s)) = map LocalId (Users s)"
  by (simp add: attach_device_def map_LocalId_devices_update split: option.splits)

lemma UserHandles_detach: "map UserHandle (Users (detach_device ch s)) = map UserHandle (Users s)"
  by (simp add: detach_device_def map_UserHandle_devices_update split: option.splits)

lemma UserHandles_attach: "map UserHandle (Users (attach_device ch s)) = map UserHandle (Users s)"
  by (simp add: attach_device_def map_UserHandle_devices_update split: option.splits)

lemma LocalIds_device_callback:
  "map LocalId (Users (UserDeviceAssociationChangedCallback ch s)) = map LocalId (Users s)"
  by (simp add: UserDeviceAssociationChangedCallback_def LocalIds_attach LocalIds_detach)

lemma Users_AddUserComplete:
  "Users (AddUserComplete g ab s) =
     (if SUCCEEDED (XUserAddResult_hr ab) \<and> FindUser (Users s) (g (XUserAddResult_user ab)) = None
         \<and> length (Users s) < Users_capacity
      then Users s @ [\<lparr>UserHandle = XUserAddResult_user ab, LocalId = g (XUserAddResult_user ab),
                       AssociatedDevices = []\<rparr>]
      else Users s)"
  by (simp add: AddUserComplete_def Array_AddOne_def User_Set_def User_default_def Let_def)

lemma Users_UserChangeEventCallback:
  "Users (UserChangeEventCallback lid ev s) =
     (case ev of
        SignedOut \<Rightarrow> (case FindUser (Users s) lid of None \<Rightarrow> Users s
                      | Some i \<Rightarrow> Array_RemoveAt (Users s) i)
      | _ \<Rightarrow> Users s)"
  by (simp add: UserChangeEventCallback_def SignedOut_loop_FindUser Users_remove_user
           split: XUserChangeEvent.splits option.splits)

lemma distinct_AddUserComplete:
  "distinct (map LocalId (Users s)) \<Longrightarrow> distinct (map LocalId (Users (AddUserComplete g ab s)))"
  by (auto simp: Users_AddUserComplete FindUser_None_iff)

lemma distinct_UserChangeEventCallback:
  "distinct (map LocalId (Users s)) \<Longrightarrow>
   distinct (map LocalId (Users (UserChangeEventCallback lid ev s)))"
  by (simp add: Users_UserChangeEventCallback distinct_Array_RemoveAt
           split: XUserChangeEvent.splits option.splits)

lemma distinct_run_completion:
  "distinct (map LocalId (Users s)) \<Longrightarrow> distinct (map LocalId (Users (run_completion g c s)))"
  by (cases c)
     (simp_all add: run_completion_def distinct_AddUserComplete distinct_UserChangeEventCallback
        LocalIds_device_callback)

subsection \<open>One session per local id\<close>

text \<open>
  C1. Whatever completions the task queue delivers, in whatever order (sign-in completions,
  sign-out and other user changes, device association changes), a registry in which no two
  sessions have the same \<open>LocalId\<close> is still one afterwards: a sign-in appends a session
  only when \<open>FindUser\<close> finds none with its local id, a sign-out takes one entry out, and a
  device change touches device lists only. The registry starts empty, so it never holds two
  sessions with one local id.
\<close>

theorem registry_localId_unique:
  "distinct (map LocalId (Users s)) \<Longrightarrow>
   distinct (map LocalId (Users (run_completions g cs s)))"
proof (induction cs arbitrary: s)
  case Nil
  then show ?case by simp
next
  case (Cons c cs)
  from Cons.prems have "distinct (map LocalId (Users (run_completion g c s)))"
    by (rule distinct_run_completion)
  then show ?case by (simp add: Cons.IH)
qed



theorem registry_localId_unique_witness:
  "distinct (map LocalId (Users gdk_init)) \<and>
   map LocalId (Users (run_completions of_nat
     [UserAddCompleted \<lparr>XUserAddResult_hr = 0, XUserAddResult_user = 7\<rparr>,
      UserAddCompleted \<lparr>XUserAddResult_hr = 0, XUserAddResult_user = 7\<rparr>,
      UserAddCompleted \<lparr>XUserAddResult_hr = 0, XUserAddResult_user = 8\<rparr>,
      UserChanged 7 SignedOut] gdk_init)) = [8] \<and>
   distinct (map LocalId (Users (run_completions of_nat
     [UserAddCompleted \<lparr>XUserAddResult_hr = 0, XUserAddResult_user = 7\<rparr>,
      UserAddCompleted \<lparr>XUserAddResult_hr = 0, XUserAddResult_user = 7\<rparr>,
      UserAddCompleted \<lparr>XUserAddResult_hr = 0, XUserAddResult_user = 8\<rparr>,
      UserChanged 7 SignedOut] gdk_init)))"
proof -
  have start: "distinct (map LocalId (Users gdk_init))"
    by (simp add: gdk_init_def)
  have "map LocalId (Users (run_completions of_nat
     [UserAddCompleted \<lparr>XUserAddResult_hr = 0, XUserAddResult_user = 7\<rparr>,
      UserAddCompleted \<lparr>XUserAddResult_hr = 0, XUserAddResult_user = 7\<rparr>,
      UserAddCompleted \<lparr>XUserAddResult_hr = 0, XUserAddResult_user = 8\<rparr>,
      UserChanged 7 SignedOut] gdk_init)) = [8]"
    by (simp add: run_completion_def Users_AddUserComplete Users_UserChangeEventCallback
          SUCCEEDED_def Users_capacity_def Array_RemoveAt_def gdk_init_def)
  with start registry_localId_unique [OF start] show ?thesis
    by simp
qed

subsection \<open>Sign-in\<close>

text \<open>
  C2, as amended. A sign-in completion whose \<open>XUserAddResult\<close> succeeds, for a local id that
  \<open>FindUser\<close> does not find, appends exactly one session when the registry holds fewer
  than its capacity of 8 sessions: the session has the handle, the local id, and no device.
  When a session with the local id exists, the registry stays as it is.
\<close>

theorem sign_in_inserts_below_capacity:
  "SUCCEEDED (XUserAddResult_hr ab) \<Longrightarrow>
   (FindUser (Users s) (getLocalId (XUserAddResult_user ab)) = None \<and>
      length (Users s) < Users_capacity \<longrightarrow>
      Users (AddUserComplete getLocalId ab s) =
        Users s @ [\<lparr>UserHandle = XUserAddResult_user ab,
                    LocalId = getLocalId (XUserAddResult_user ab),
                    AssociatedDevices = []\<rparr>]) \<and>
   (FindUser (Users s) (getLocalId (XUserAddResult_user ab)) \<noteq> None \<longrightarrow>
      Users (AddUserComplete getLocalId ab s) = Users s)"
  by (simp add: Users_AddUserComplete)

theorem sign_in_inserts_below_capacity_witness:
  "SUCCEEDED (XUserAddResult_hr \<lparr>XUserAddResult_hr = 0, XUserAddResult_user = 7\<rparr>) \<and>
   FindUser (Users gdk_init) 7 = None \<and>
   length (Users gdk_init) < Users_capacity \<and>
   Users (AddUserComplete of_nat \<lparr>XUserAddResult_hr = 0, XUserAddResult_user = 7\<rparr> gdk_init) =
     [\<lparr>UserHandle = 7, LocalId = 7, AssociatedDevices = []\<rparr>] \<and>
   FindUser [\<lparr>UserHandle = 3, LocalId = 7, AssociatedDevices = [5]\<rparr>] 7 \<noteq> None \<and>
   Users (AddUserComplete of_nat \<lparr>XUserAddResult_hr = 0, XUserAddResult_user = 7\<rparr>
            (gdk_init\<lparr>Users := [\<lparr>UserHandle = 3, LocalId = 7, AssociatedDevices = [5]\<rparr>]\<rparr>)) =
     [\<lparr>UserHandle = 3, LocalId = 7, AssociatedDevices = [5]\<rparr>]"
proof -
  have ok: "SUCCEEDED (XUserAddResult_hr \<lparr>XUserAddResult_hr = 0, XUserAddResult_user = 7\<rparr>)"
    by (simp add: SUCCEEDED_def)
  show ?thesis
    using ok
      sign_in_inserts_below_capacity [OF ok, of gdk_init of_nat]
      sign_in_inserts_below_capacity [OF ok,
        of "gdk_init\<lparr>Users := [\<lparr>UserHandle = 3, LocalId = 7, AssociatedDevices = [5]\<rparr>]\<rparr>" of_nat]
    by (simp add: gdk_init_def Users_capacity_def)
qed

text \<open>
  C2 as stated does not hold for a registry that is full: with eight sessions registered, a
  successful sign-in for a ninth local id leaves the registry as it was.
\<close>

theorem sign_in_at_capacity_counterexample:
  "SUCCEEDED (XUserAddResult_hr \<lparr>XUserAddResult_hr = 0, XUserAddResult_user = 9\<rparr>) \<and>
   FindUser (map session [1, 2, 3, 4, 5, 6, 7, 8]) (of_nat 9) = None \<and>
   Users (AddUserComplete of_nat \<lparr>XUserAddResult_hr = 0, XUserAddResult_user = 9\<rparr>
            (gdk_init\<lparr>Users := map session [1, 2, 3, 4, 5, 6, 7, 8]\<rparr>)) =
     map session [1, 2, 3, 4, 5, 6, 7, 8]"
  by (simp add: Users_AddUserComplete SUCCEEDED_def Users_capacity_def gdk_init_def
        session_def User_Set_def User_default_def)

subsection \<open>Sign-out\<close>

text \<open>
  C3. A sign-out for a local id that no session has changes nothing but the log: the
  registry is as it was and nothing is closed or removed. For a local id that the session at
  index \<open>i\<close> has (the first such), what the callback does after its log line is, in this
  order, to close the handle of that session and then to remove the entry at index \<open>i\<close>
  from the registry: the close is recorded before the removal, and nothing else is closed
  or removed.
\<close>

theorem sign_out_closes_then_removes:
  "(FindUser (Users s) userLocalId = None \<longrightarrow>
      UserChangeEventCallback userLocalId SignedOut s = emit (LogUserEvent userLocalId SignedOut) s \<and>
      Users (UserChangeEventCallback userLocalId SignedOut s) = Users s \<and>
      effects (UserChangeEventCallback userLocalId SignedOut s) =
        effects s @ [LogUserEvent userLocalId SignedOut]) \<and>
   (\<forall>i. FindUser (Users s) userLocalId = Some i \<longrightarrow>
      i < length (Users s) \<and>
      LocalId (Users s ! i) = userLocalId \<and>
      effects (UserChangeEventCallback userLocalId SignedOut s) =
        effects s @ [LogUserEvent userLocalId SignedOut,
                     XUserCloseHandle (UserHandle (Users s ! i)),
                     Users_RemovedAt i] \<and>
      Users (UserChangeEventCallback userLocalId SignedOut s) = Array_RemoveAt (Users s) i)"
proof (intro conjI impI allI)
  assume "FindUser (Users s) userLocalId = None"
  then show absent: "UserChangeEventCallback userLocalId SignedOut s =
      emit (LogUserEvent userLocalId SignedOut) s"
    by (simp add: UserChangeEventCallback_def SignedOut_loop_FindUser)
  show "Users (UserChangeEventCallback userLocalId SignedOut s) = Users s"
    by (simp add: absent)
  show "effects (UserChangeEventCallback userLocalId SignedOut s) =
      effects s @ [LogUserEvent userLocalId SignedOut]"
    by (simp add: absent)
next
  fix i
  assume found: "FindUser (Users s) userLocalId = Some i"
  let ?logged = "emit (LogUserEvent userLocalId SignedOut) s"
  show "i < length (Users s)"
    using found by (rule FindUser_Some_bound)
  show "LocalId (Users s ! i) = userLocalId"
    using found by (rule FindUser_Some_id)
  have cb: "UserChangeEventCallback userLocalId SignedOut s =
      Users_RemoveAt i (User_Unset_at i ?logged)"
    using found by (simp add: UserChangeEventCallback_def SignedOut_loop_FindUser)
  show "effects (UserChangeEventCallback userLocalId SignedOut s) =
      effects s @ [LogUserEvent userLocalId SignedOut,
                   XUserCloseHandle (UserHandle (Users s ! i)), Users_RemovedAt i]"
    by (simp add: cb Users_RemoveAt_def User_Unset_at_def)
  show "Users (UserChangeEventCallback userLocalId SignedOut s) = Array_RemoveAt (Users s) i"
    by (simp add: cb Users_remove_user)
qed

theorem sign_out_closes_then_removes_witness:
  "FindUser (Users gdk_init) 7 = None \<and>
   Users (UserChangeEventCallback 7 SignedOut gdk_init) = Users gdk_init \<and>
   effects (UserChangeEventCallback 7 SignedOut gdk_init) = [LogUserEvent 7 SignedOut] \<and>
   FindUser (Users (gdk_init\<lparr>Users := [session 6, session 7, session 8]\<rparr>)) 7 = Some 1 \<and>
   effects (UserChangeEventCallback 7 SignedOut
              (gdk_init\<lparr>Users := [session 6, session 7, session 8]\<rparr>)) =
     [LogUserEvent 7 SignedOut, XUserCloseHandle 7, Users_RemovedAt 1] \<and>
   Users (UserChangeEventCallback 7 SignedOut
            (gdk_init\<lparr>Users := [session 6, session 7, session 8]\<rparr>)) = [session 6, session 8]"
proof -
  have absent: "FindUser (Users gdk_init) 7 = None"
    by (simp add: gdk_init_def)
  have present: "FindUser (Users (gdk_init\<lparr>Users := [session 6, session 7, session 8]\<rparr>)) 7 = Some 1"
    by (simp add: session_def User_Set_def User_default_def)
  note none = sign_out_closes_then_removes [of gdk_init 7, THEN conjunct1, rule_format, OF absent]
  note some = sign_out_closes_then_removes
    [of "gdk_init\<lparr>Users := [session 6, session 7, session 8]\<rparr>" 7, THEN conjunct2,
     rule_format, OF present]
  have "Users (UserChangeEventCallback 7 SignedOut gdk_init) = Users gdk_init"
    using none by simp
  moreover have "effects (UserChangeEventCallback 7 SignedOut gdk_init) = [LogUserEvent 7 SignedOut]"
    using none by (simp add: gdk_init_def)
  moreover have "effects (UserChangeEventCallback 7 SignedOut
              (gdk_init\<lparr>Users := [session 6, session 7, session 8]\<rparr>)) =
     [LogUserEvent 7 SignedOut, XUserCloseHandle 7, Users_RemovedAt 1]"
    using some by (simp add: gdk_init_def session_def User_Set_def User_default_def)
  moreover have "Users (UserChangeEventCallback 7 SignedOut
            (gdk_init\<lparr>Users := [session 6, session 7, session 8]\<rparr>)) = [session 6, session 8]"
    using some by (simp add: Array_RemoveAt_def)
  ultimately show ?thesis
    using absent present by (intro conjI)
qed

subsection \<open>Device changes for unknown sessions\<close>


lemma nth_Users_detach:
  assumes "LocalId (Users s ! k) \<noteq> oldUser ch"
  shows "Users (detach_device ch s) ! k = Users s ! k"
proof (cases "FindUser (Users s) (oldUser ch)")
  case None
  then show ?thesis by (simp add: detach_device_def)
next
  case (Some i)
  then have "LocalId (Users s ! i) = oldUser ch"
    by (rule FindUser_Some_id)
  with assms have "i \<noteq> k" by auto
  with Some show ?thesis by (simp add: detach_device_def)
qed

lemma nth_Users_attach:
  assumes "LocalId (Users s ! k) \<noteq> newUser ch"
  shows "Users (attach_device ch s) ! k = Users s ! k"
proof (cases "FindUser (Users s) (newUser ch)")
  case None
  then show ?thesis by (simp add: attach_device_def)
next
  case (Some i)
  then have "LocalId (Users s ! i) = newUser ch"
    by (rule FindUser_Some_id)
  with assms have "i \<noteq> k" by auto
  with Some show ?thesis by (simp add: attach_device_def)
qed

lemma FindUser_cong_ids: "map LocalId us = map LocalId vs \<Longrightarrow> FindUser us lid = FindUser vs lid"
proof (induction us arbitrary: vs)
  case Nil
  then show ?case by simp
next
  case (Cons u us)
  then obtain v vs' where "vs = v # vs'" by (cases vs) auto
  with Cons show ?case by auto
qed

text \<open>
  C4. A device association change never adds or removes a session and never changes a handle
  or a local id; all it does outside the registry is to log one line. When the old user has
  no session the detach is skipped, when the new user has none the attach is skipped, when
  neither has one the registry is unchanged; and a session whose local id is neither the old
  nor the new user is left as it is.
\<close>

theorem device_change_unknown_session_dropped:
  "map LocalId (Users (UserDeviceAssociationChangedCallback change s)) = map LocalId (Users s) \<and>
   map UserHandle (Users (UserDeviceAssociationChangedCallback change s)) = map UserHandle (Users s) \<and>
   effects (UserDeviceAssociationChangedCallback change s) =
     effects s @ [LogDeviceAssociation (deviceId change) (oldUser change) (newUser change)] \<and>
   (FindUser (Users s) (oldUser change) = None \<longrightarrow>
      UserDeviceAssociationChangedCallback change s =
        attach_device change
          (emit (LogDeviceAssociation (deviceId change) (oldUser change) (newUser change)) s)) \<and>
   (FindUser (Users s) (newUser change) = None \<longrightarrow>
      UserDeviceAssociationChangedCallback change s =
        detach_device change
          (emit (LogDeviceAssociation (deviceId change) (oldUser change) (newUser change)) s)) \<and>
   (FindUser (Users s) (oldUser change) = None \<and> FindUser (Users s) (newUser change) = None \<longrightarrow>
      Users (UserDeviceAssociationChangedCallback change s) = Users s) \<and>
   (\<forall>k<length (Users s).
      LocalId (Users s ! k) \<noteq> oldUser change \<and> LocalId (Users s ! k) \<noteq> newUser change \<longrightarrow>
      Users (UserDeviceAssociationChangedCallback change s) ! k = Users s ! k)"
proof -
  let ?logged = "emit (LogDeviceAssociation (deviceId change) (oldUser change) (newUser change)) s"
  have ids: "map LocalId (Users (UserDeviceAssociationChangedCallback change s)) = map LocalId (Users s)"
    by (rule LocalIds_device_callback)
  have handles: "map UserHandle (Users (UserDeviceAssociationChangedCallback change s)) =
      map UserHandle (Users s)"
    by (simp add: UserDeviceAssociationChangedCallback_def UserHandles_attach UserHandles_detach)
  have eff: "effects (UserDeviceAssociationChangedCallback change s) =
      effects s @ [LogDeviceAssociation (deviceId change) (oldUser change) (newUser change)]"
    by (simp add: UserDeviceAssociationChangedCallback_def attach_device_def detach_device_def
          split: option.splits)
  have no_old: "UserDeviceAssociationChangedCallback change s = attach_device change ?logged"
    if "FindUser (Users s) (oldUser change) = None"
    using that by (simp add: UserDeviceAssociationChangedCallback_def detach_device_def)
  have new_same: "FindUser (Users (detach_device change ?logged)) (newUser change) =
      FindUser (Users s) (newUser change)"
    by (rule FindUser_cong_ids) (simp add: LocalIds_detach)
  have no_new: "UserDeviceAssociationChangedCallback change s = detach_device change ?logged"
    if "FindUser (Users s) (newUser change) = None"
    using that new_same by (simp add: UserDeviceAssociationChangedCallback_def attach_device_def)
  have neither: "Users (UserDeviceAssociationChangedCallback change s) = Users s"
    if "FindUser (Users s) (oldUser change) = None" "FindUser (Users s) (newUser change) = None"
    using that by (simp add: no_old attach_device_def)
  have others: "Users (UserDeviceAssociationChangedCallback change s) ! k = Users s ! k"
    if "k < length (Users s)" "LocalId (Users s ! k) \<noteq> oldUser change"
      "LocalId (Users s ! k) \<noteq> newUser change" for k
  proof -
    have d: "Users (detach_device change ?logged) ! k = Users s ! k"
      using that(2) nth_Users_detach [of ?logged k change] by simp
    have "Users (attach_device change (detach_device change ?logged)) ! k =
        Users (detach_device change ?logged) ! k"
      by (rule nth_Users_attach) (simp add: d that(3))
    with d show ?thesis
      by (simp add: UserDeviceAssociationChangedCallback_def)
  qed
  from ids handles eff no_old no_new neither others show ?thesis
    by blast
qed

theorem device_change_unknown_session_dropped_witness:
  "FindUser (Users (gdk_init\<lparr>Users := [session 7]\<rparr>)) 3 = None \<and>
   FindUser (Users (gdk_init\<lparr>Users := [session 7]\<rparr>)) 4 = None \<and>
   Users (UserDeviceAssociationChangedCallback \<lparr>deviceId = 1, oldUser = 3, newUser = 4\<rparr>
            (gdk_init\<lparr>Users := [session 7]\<rparr>)) = [session 7] \<and>
   effects (UserDeviceAssociationChangedCallback \<lparr>deviceId = 1, oldUser = 3, newUser = 4\<rparr>
            (gdk_init\<lparr>Users := [session 7]\<rparr>)) = [LogDeviceAssociation 1 3 4] \<and>
   Users (UserDeviceAssociationChangedCallback \<lparr>deviceId = 1, oldUser = 3, newUser = 7\<rparr>
            (gdk_init\<lparr>Users := [session 7]\<rparr>)) =
     [\<lparr>UserHandle = 7, LocalId = 7, AssociatedDevices = [1]\<rparr>]"
proof -
  have old: "FindUser (Users (gdk_init\<lparr>Users := [session 7]\<rparr>)) 3 = None"
    and new: "FindUser (Users (gdk_init\<lparr>Users := [session 7]\<rparr>)) 4 = None"
    by (simp_all add: session_def User_Set_def User_default_def)
  show ?thesis
    using old new
      device_change_unknown_session_dropped
        [of "\<lparr>deviceId = 1, oldUser = 3, newUser = 4\<rparr>" "gdk_init\<lparr>Users := [session 7]\<rparr>"]
      device_change_unknown_session_dropped
        [of "\<lparr>deviceId = 1, oldUser = 3, newUser = 7\<rparr>" "gdk_init\<lparr>Users := [session 7]\<rparr>"]
    by (simp add: gdk_init_def session_def User_Set_def User_default_def attach_device_def
          emit_def Array_Add_def AssociatedDevices_capacity_def)
qed

subsection \<open>Opening a URL\<close>

text \<open>
  C10. \<open>OpenUrl\<close> reads \<open>Users[0]\<close> whatever the registry holds. The read is inside the array
  exactly when \<open>CanOpenUrl\<close> is true; then the URL is launched with the handle of the first
  session. On an empty registry the read is outside the array.
\<close>

theorem OpenUrl_in_bounds_iff_CanOpenUrl:
  "((\<exists>s'. OpenUrl s url = Inr s') \<longleftrightarrow> CanOpenUrl s url) \<and>
   (CanOpenUrl s url \<longrightarrow>
      OpenUrl s url = Inr (emit (XLaunchUri (UserHandle (Users s ! 0)) url) s)) \<and>
   (Users s = [] \<longrightarrow> OpenUrl s url = Inl IndexOutOfRange)"
  by (auto simp: OpenUrl_def CanOpenUrl_def)

theorem OpenUrl_in_bounds_iff_CanOpenUrl_witness:
  "CanOpenUrl (gdk_init\<lparr>Users := [session 7, session 8]\<rparr>) ''ms-settings:'' \<and>
   OpenUrl (gdk_init\<lparr>Users := [session 7, session 8]\<rparr>) ''ms-settings:'' =
     Inr (gdk_init\<lparr>Users := [session 7, session 8], effects := [XLaunchUri 7 ''ms-settings:'']\<rparr>) \<and>
   Users gdk_init = [] \<and> \<not> CanOpenUrl gdk_init ''ms-settings:'' \<and>
   OpenUrl gdk_init ''ms-settings:'' = Inl IndexOutOfRange"
  using OpenUrl_in_bounds_iff_CanOpenUrl [of "gdk_init\<lparr>Users := [session 7, session 8]\<rparr>" "''ms-settings:''"]
    OpenUrl_in_bounds_iff_CanOpenUrl [of gdk_init "''ms-settings:''"]
  by (simp add: CanOpenUrl_def gdk_init_def emit_def session_def User_Set_def User_default_def)


subsection \<open>A sign-in that failed\<close>


lemma Users_detach:
  "Users (detach_device ch s) =
     (case FindUser (Users s) (oldUser ch) of
        None \<Rightarrow> Users s
      | Some i \<Rightarrow> (Users s)[i := (Users s ! i)
          \<lparr>AssociatedDevices :=
             Array_Remove device_eq (AssociatedDevices (Users s ! i)) (deviceId ch)\<rparr>])"
  by (simp add: detach_device_def split: option.splits)

lemma Users_attach:
  "Users (attach_device ch s) =
     (case FindUser (Users s) (newUser ch) of
        None \<Rightarrow> Users s
      | Some i \<Rightarrow> (Users s)[i := (Users s ! i)
          \<lparr>AssociatedDevices :=
             Array_Add AssociatedDevices_capacity (AssociatedDevices (Users s ! i))
               (deviceId ch)\<rparr>])"
  by (simp add: attach_device_def split: option.splits)

lemma Users_detach_cong:
  assumes "Users s = Users t"
  shows "Users (detach_device ch s) = Users (detach_device ch t)"
  unfolding Users_detach assms ..

lemma Users_attach_cong:
  assumes "Users s = Users t"
  shows "Users (attach_device ch s) = Users (attach_device ch t)"
  unfolding Users_attach assms ..

lemma Users_device_callback_cong:
  assumes "Users s = Users t"
  shows "Users (UserDeviceAssociationChangedCallback ch s) =
         Users (UserDeviceAssociationChangedCallback ch t)"
  unfolding UserDeviceAssociationChangedCallback_def
  by (intro Users_attach_cong Users_detach_cong) (simp add: assms)

lemma Users_run_completion_cong:
  assumes "Users s = Users t"
  shows "Users (run_completion g c s) = Users (run_completion g c t)"
proof (cases c)
  case (UserAddCompleted ab)
  have "Users (AddUserComplete g ab s) = Users (AddUserComplete g ab t)"
    unfolding Users_AddUserComplete assms ..
  with UserAddCompleted show ?thesis
    by (simp add: run_completion_def)
next
  case (UserChanged lid ev)
  have "Users (UserChangeEventCallback lid ev s) = Users (UserChangeEventCallback lid ev t)"
    unfolding Users_UserChangeEventCallback assms ..
  with UserChanged show ?thesis
    by (simp add: run_completion_def)
next
  case (DeviceAssociationChanged ch)
  with Users_device_callback_cong [OF assms] show ?thesis
    by (simp add: run_completion_def)
qed

lemma Users_run_completions_cong:
  "Users s = Users t \<Longrightarrow> Users (run_completions g cs s) = Users (run_completions g cs t)"
proof (induction cs arbitrary: s t)
  case Nil
  then show ?case by simp
next
  case (Cons c cs)
  from Cons.prems have "Users (run_completion g c s) = Users (run_completion g c t)"
    by (rule Users_run_completion_cong)
  then have "Users (run_completions g cs (run_completion g c s)) =
      Users (run_completions g cs (run_completion g c t))"
    by (rule Cons.IH)
  then show ?case by simp
qed

lemma run_completions_append:
  "run_completions g (cs @ ds) s = run_completions g ds (run_completions g cs s)"
  by (induction cs arbitrary: s) simp_all

text \<open>
  C7, as amended. When \<open>XUserAddResult\<close> does not succeed, \<open>AddUserComplete\<close> does nothing
  but delete the async block: nothing is logged, the registry is unchanged, and the
  completions queued before and after it leave the registry exactly as they would have
  without it.
\<close>

theorem failed_sign_in_discarded_silently:
  "\<not> SUCCEEDED (XUserAddResult_hr ab) \<Longrightarrow>
   AddUserComplete getLocalId ab s = emit (DeleteAsyncBlock ab) s \<and>
   Users (AddUserComplete getLocalId ab s) = Users s \<and>
   effects (AddUserComplete getLocalId ab s) = effects s @ [DeleteAsyncBlock ab] \<and>
   Users (run_completions getLocalId (before @ UserAddCompleted ab # after) s) =
     Users (run_completions getLocalId (before @ after) s)"
proof -
  assume failed: "\<not> SUCCEEDED (XUserAddResult_hr ab)"
  then have discard: "AddUserComplete getLocalId ab t = emit (DeleteAsyncBlock ab) t" for t
    by (simp add: AddUserComplete_def)
  have "Users (run_completions getLocalId after
            (emit (DeleteAsyncBlock ab) (run_completions getLocalId before s))) =
        Users (run_completions getLocalId after (run_completions getLocalId before s))"
    by (rule Users_run_completions_cong) simp
  then have "Users (run_completions getLocalId (before @ UserAddCompleted ab # after) s) =
     Users (run_completions getLocalId (before @ after) s)"
    by (simp add: run_completions_append run_completion_def discard)
  with discard show ?thesis
    by simp
qed

theorem failed_sign_in_discarded_silently_witness:
  "\<not> SUCCEEDED (XUserAddResult_hr \<lparr>XUserAddResult_hr = 0x80004005, XUserAddResult_user = 0\<rparr>) \<and>
   AddUserComplete of_nat \<lparr>XUserAddResult_hr = 0x80004005, XUserAddResult_user = 0\<rparr> gdk_init =
     gdk_init\<lparr>effects := [DeleteAsyncBlock \<lparr>XUserAddResult_hr = 0x80004005, XUserAddResult_user = 0\<rparr>]\<rparr> \<and>
   Users (run_completions of_nat
     ([UserAddCompleted \<lparr>XUserAddResult_hr = 0, XUserAddResult_user = 7\<rparr>] @
      UserAddCompleted \<lparr>XUserAddResult_hr = 0x80004005, XUserAddResult_user = 0\<rparr> #
      [UserAddCompleted \<lparr>XUserAddResult_hr = 0, XUserAddResult_user = 8\<rparr>]) gdk_init) =
     [session 7, session 8]"
proof -
  have failed: "\<not> SUCCEEDED (XUserAddResult_hr \<lparr>XUserAddResult_hr = 0x80004005, XUserAddResult_user = 0\<rparr>)"
    by (simp add: SUCCEEDED_def)
  have others: "Users (run_completions of_nat
     ([UserAddCompleted \<lparr>XUserAddResult_hr = 0, XUserAddResult_user = 7\<rparr>] @
      [UserAddCompleted \<lparr>XUserAddResult_hr = 0, XUserAddResult_user = 8\<rparr>]) gdk_init) =
     [session 7, session 8]"
    by (simp add: run_completion_def Users_AddUserComplete SUCCEEDED_def Users_capacity_def
          gdk_init_def session_def User_Set_def User_default_def)
  note discarded = failed_sign_in_discarded_silently [OF failed, of of_nat gdk_init
        "[UserAddCompleted \<lparr>XUserAddResult_hr = 0, XUserAddResult_user = 7\<rparr>]"
        "[UserAddCompleted \<lparr>XUserAddResult_hr = 0, XUserAddResult_user = 8\<rparr>]"]
  have alone: "AddUserComplete of_nat \<lparr>XUserAddResult_hr = 0x80004005, XUserAddResult_user = 0\<rparr> gdk_init =
     gdk_init\<lparr>effects := [DeleteAsyncBlock \<lparr>XUserAddResult_hr = 0x80004005, XUserAddResult_user = 0\<rparr>]\<rparr>"
    using discarded [THEN conjunct1] by (simp add: gdk_init_def emit_def)
  have among: "Users (run_completions of_nat
     ([UserAddCompleted \<lparr>XUserAddResult_hr = 0, XUserAddResult_user = 7\<rparr>] @
      UserAddCompleted \<lparr>XUserAddResult_hr = 0x80004005, XUserAddResult_user = 0\<rparr> #
      [UserAddCompleted \<lparr>XUserAddResult_hr = 0, XUserAddResult_user = 8\<rparr>]) gdk_init) =
     [session 7, session 8]"
    using discarded [THEN conjunct2, THEN conjunct2, THEN conjunct2] others by (simp only:)
  from failed alone among show ?thesis
    by (intro conjI)
qed

text \<open>
  C7 as stated has the failure logged. After a sign-in that failed with \<open>E_FAIL\<close> the
  deletion of the block is all that has happened: no line has been logged.
\<close>

theorem failed_sign_in_not_logged_counterexample:
  "\<not> SUCCEEDED (XUserAddResult_hr \<lparr>XUserAddResult_hr = 0x80004005, XUserAddResult_user = 0\<rparr>) \<and>
   effects (AddUserComplete of_nat \<lparr>XUserAddResult_hr = 0x80004005, XUserAddResult_user = 0\<rparr>
              gdk_init) =
     [DeleteAsyncBlock \<lparr>XUserAddResult_hr = 0x80004005, XUserAddResult_user = 0\<rparr>]"
  by (simp add: AddUserComplete_def SUCCEEDED_def gdk_init_def emit_def)

subsection \<open>Device lists\<close>







lemma LocalId_detached [simp]: "LocalId (detached d lid u) = LocalId u"
  by (simp add: detached_def)












section \<open>The dispatch loop\<close>














section \<open>The suspend handshake\<close>

lemma handshake_inv_os_step: "handshake_inv s \<Longrightarrow> handshake_inv (os_step quiesced s)"
  unfolding handshake_inv_def
  by (cases "notifier s"; cases "mainThread s")
     (auto simp: os_step_def notifier_inv_def main_inv_def occurred_def did_def Let_def)

lemma handshake_inv_notifier_step: "handshake_inv s \<Longrightarrow> handshake_inv (notifier_step s)"
  unfolding handshake_inv_def
  by (cases "notifier s"; cases "mainThread s")
     (auto simp: notifier_step_def notifier_inv_def main_inv_def occurred_def did_def Let_def)

lemma handshake_inv_main_step: "handshake_inv s \<Longrightarrow> handshake_inv (main_step s)"
  unfolding handshake_inv_def
  by (cases "notifier s"; cases "mainThread s")
     (auto simp: main_step_def notifier_inv_def main_inv_def occurred_def did_def Let_def)

lemma handshake_inv_step: "handshake_inv s \<Longrightarrow> handshake_inv (step t s)"
  by (cases t) (simp_all add: handshake_inv_os_step handshake_inv_notifier_step handshake_inv_main_step)

lemma handshake_inv_run: "handshake_inv s \<Longrightarrow> handshake_inv (run schedule s)"
  by (induction schedule arbitrary: s) (simp_all add: handshake_inv_step)

lemma handshake_inv_created:
  "handshake_inv (OnMainWindowCreated hWnd event1 event2 registerResult lifecycle_boot)"
  by (simp add: handshake_inv_def notifier_inv_def main_inv_def OnMainWindowCreated_def
        lifecycle_boot_def occurred_def did_def Let_def)

lemma handshake_inv_order:
  assumes "handshake_inv s"
  shows "occurred ResetEvent_PlmSignalResume s \<le> occurred ResetEvent_PlmSuspendComplete s"
    and "occurred PostMessage_WM_USER s \<le> occurred ResetEvent_PlmSignalResume s"
    and "occurred Wait_PlmSuspendComplete_returned s \<le> occurred PostMessage_WM_USER s"
    and "occurred Wait_PlmSuspendComplete_returned s \<le> occurred SetEvent_PlmSuspendComplete s"
    and "occurred SetEvent_PlmSuspendComplete s \<le> occurred OnSuspend_fired s"
    and "occurred OnSuspend_fired s \<le> occurred (Notified True) s"
  using assms unfolding handshake_inv_def notifier_inv_def main_inv_def Let_def
  by (cases "notifier s"; cases "mainThread s"; simp split: if_splits)+

lemma handshake_inv_idle:
  assumes "handshake_inv s" and "notifier s = N_Idle"
  shows "occurred OnSuspend_fired s = occurred (Notified True) s"
    and "occurred Wait_PlmSuspendComplete_returned s = occurred (Notified True) s"
  using assms unfolding handshake_inv_def notifier_inv_def main_inv_def Let_def
  by (cases "mainThread s"; simp split: if_splits)+

lemma handshake_inv_blocked:
  assumes "handshake_inv s" and "notifier s = N_WaitSuspendComplete"
    and "occurred OnSuspend_fired s < occurred (Notified True) s"
  shows "notifier_step s = s"
proof -
  have "\<not> SuspendComplete_signaled s"
    using assms unfolding handshake_inv_def notifier_inv_def main_inv_def Let_def
    by (cases "mainThread s"; auto split: if_splits)
  with assms(2) show ?thesis
    by (simp add: notifier_step_def)
qed

lemma signals_inv_step:
  assumes "handshake_inv s" and "signals_inv s"
  shows "signals_inv (step t s)"
proof (cases t)
  case (OS_notifies quiesced)
  with assms(2) show ?thesis
    by (cases "notifier s") (auto simp: signals_inv_def os_step_def did_def)
next
  case Notifier
  with assms(2) show ?thesis
    by (cases "notifier s") (auto simp: signals_inv_def notifier_step_def did_def)
next
  case MainThread
  with assms show ?thesis
    unfolding handshake_inv_def notifier_inv_def main_inv_def Let_def
    by (cases "notifier s"; cases "mainThread s")
       (auto simp: signals_inv_def main_step_def did_def)
qed

lemma both_inv_run:
  "handshake_inv s \<Longrightarrow> signals_inv s \<Longrightarrow>
   handshake_inv (run schedule s) \<and> signals_inv (run schedule s)"
  by (induction schedule arbitrary: s) (simp_all add: handshake_inv_step signals_inv_step)

lemma signals_inv_created:
  "signals_inv (OnMainWindowCreated hWnd event1 event2 registerResult lifecycle_boot)"
  by (simp add: signals_inv_def OnMainWindowCreated_def lifecycle_boot_def did_def Let_def)

lemma signals_inv_unsignalled:
  assumes "signals_inv s"
  shows "notifier s = N_ResetSignalResume \<Longrightarrow> \<not> SuspendComplete_signaled s"
    and "notifier s = N_PostMessage \<Longrightarrow> \<not> SuspendComplete_signaled s"
    and "notifier s = N_PostMessage \<Longrightarrow> \<not> SignalResume_signaled s"
    and "notifier s = N_WaitSuspendComplete \<Longrightarrow> \<not> SignalResume_signaled s"
  using assms by (simp_all add: signals_inv_def)

lemma notifier_step_resets:
  "notifier t = N_ResetSuspendComplete \<Longrightarrow> \<not> SuspendComplete_signaled (notifier_step t)"
  "notifier t = N_ResetSignalResume \<Longrightarrow> \<not> SignalResume_signaled (notifier_step t)"
  by (simp_all add: notifier_step_def did_def)

text \<open>
  C5. Start from the state \<open>OnMainWindowCreated\<close> leaves and let the system, the notifying
  thread and the main thread move in any order, any number of times. At every moment: the
  callback has not reset \<open>PlmSignalResume\<close> more often than \<open>PlmSuspendComplete\<close>, has not
  posted more often than it has reset both, and has not returned from its wait more often
  than it has posted; it has not returned from its wait more often than the main thread
  has set \<open>PlmSuspendComplete\<close>, which the main thread has not done more often than it has
  fired the suspend event, which has not fired more often than the system has notified a
  suspension. So the n-th return of the callback comes after the n-th firing of the suspend
  event, and once the callback has returned the event has fired exactly once for each
  notification. While the event has not yet fired for the notification in progress, the
  thread in the wait does not move, however often it is scheduled. The resets do reset:
  when the callback is about to post, both events are unsignalled, whatever was signalled
  before (\<open>PlmSuspendComplete\<close> since its reset, and \<open>PlmSignalResume\<close> stays unsignalled for
  as long as the callback waits); and in any state whatever, reachable or not, the step at a
  reset leaves its event unsignalled.
\<close>

theorem suspend_handshake_fires_before_release:
  "let s = run schedule (OnMainWindowCreated hWnd event1 event2 registerResult lifecycle_boot) in
     occurred ResetEvent_PlmSignalResume s \<le> occurred ResetEvent_PlmSuspendComplete s \<and>
     occurred PostMessage_WM_USER s \<le> occurred ResetEvent_PlmSignalResume s \<and>
     occurred Wait_PlmSuspendComplete_returned s \<le> occurred PostMessage_WM_USER s \<and>
     occurred Wait_PlmSuspendComplete_returned s \<le> occurred SetEvent_PlmSuspendComplete s \<and>
     occurred SetEvent_PlmSuspendComplete s \<le> occurred OnSuspend_fired s \<and>
     occurred OnSuspend_fired s \<le> occurred (Notified True) s \<and>
     (notifier s = N_Idle \<longrightarrow>
        occurred OnSuspend_fired s = occurred (Notified True) s \<and>
        occurred Wait_PlmSuspendComplete_returned s = occurred (Notified True) s) \<and>
     (notifier s = N_WaitSuspendComplete \<and> occurred OnSuspend_fired s < occurred (Notified True) s \<longrightarrow>
        notifier_step s = s) \<and>
     (notifier s = N_ResetSignalResume \<longrightarrow> \<not> SuspendComplete_signaled s) \<and>
     (notifier s = N_PostMessage \<longrightarrow>
        \<not> SuspendComplete_signaled s \<and> \<not> SignalResume_signaled s) \<and>
     (notifier s = N_WaitSuspendComplete \<longrightarrow> \<not> SignalResume_signaled s) \<and>
     (notifier t = N_ResetSuspendComplete \<longrightarrow> \<not> SuspendComplete_signaled (notifier_step t)) \<and>
     (notifier t = N_ResetSignalResume \<longrightarrow> \<not> SignalResume_signaled (notifier_step t))"
proof -
  let ?s = "run schedule (OnMainWindowCreated hWnd event1 event2 registerResult lifecycle_boot)"
  have both: "handshake_inv ?s \<and> signals_inv ?s"
    by (rule both_inv_run) (rule handshake_inv_created, rule signals_inv_created)
  then have counts: "handshake_inv ?s" and signals: "signals_inv ?s"
    by simp_all
  show ?thesis
    unfolding Let_def
    by (intro conjI impI handshake_inv_order [OF counts] handshake_inv_idle [OF counts]
          handshake_inv_blocked [OF counts] signals_inv_unsignalled [OF signals]
          notifier_step_resets)
       simp_all
qed

lemma run_append: "run (xs @ ys) s = run ys (run xs s)"
  by (induction xs arbitrary: s) simp_all

theorem suspend_handshake_fires_before_release_witness:
  "history (run [OS_notifies True, Notifier, Notifier, Notifier, Notifier, MainThread, Notifier,
                 MainThread, Notifier, MainThread, MainThread, Notifier]
              (OnMainWindowCreated 1 10 11 0 lifecycle_boot)) =
     [CreateEventEx_called, CreateEventEx_called, RegisterAppStateChangeNotification_called,
      Notified True, ResetEvent_PlmSuspendComplete, ResetEvent_PlmSignalResume,
      PostMessage_WM_USER, WndProc_WM_USER, OnSuspend_fired, SetEvent_PlmSuspendComplete,
      Wait_PlmSuspendComplete_returned] \<and>
   notifier (run [OS_notifies True, Notifier, Notifier, Notifier, Notifier, MainThread, Notifier,
                  MainThread, Notifier, MainThread, MainThread, Notifier]
              (OnMainWindowCreated 1 10 11 0 lifecycle_boot)) = N_Idle \<and>
   occurred OnSuspend_fired
     (run [OS_notifies True, Notifier, Notifier, Notifier, Notifier, MainThread, Notifier,
           MainThread, Notifier, MainThread, MainThread, Notifier]
        (OnMainWindowCreated 1 10 11 0 lifecycle_boot)) =
   occurred (Notified True)
     (run [OS_notifies True, Notifier, Notifier, Notifier, Notifier, MainThread, Notifier,
           MainThread, Notifier, MainThread, MainThread, Notifier]
        (OnMainWindowCreated 1 10 11 0 lifecycle_boot)) \<and>
   notifier (run [OS_notifies True, Notifier, Notifier, Notifier, Notifier, MainThread]
              (OnMainWindowCreated 1 10 11 0 lifecycle_boot)) = N_WaitSuspendComplete \<and>
   occurred OnSuspend_fired
     (run [OS_notifies True, Notifier, Notifier, Notifier, Notifier, MainThread]
        (OnMainWindowCreated 1 10 11 0 lifecycle_boot)) <
   occurred (Notified True)
     (run [OS_notifies True, Notifier, Notifier, Notifier, Notifier, MainThread]
        (OnMainWindowCreated 1 10 11 0 lifecycle_boot)) \<and>
   notifier_step (run [OS_notifies True, Notifier, Notifier, Notifier, Notifier, MainThread]
                    (OnMainWindowCreated 1 10 11 0 lifecycle_boot)) =
     run [OS_notifies True, Notifier, Notifier, Notifier, Notifier, MainThread]
       (OnMainWindowCreated 1 10 11 0 lifecycle_boot) \<and>
   notifier (run [OS_notifies False, Notifier, OS_notifies True, Notifier]
              (OnMainWindowCreated 1 10 11 0 lifecycle_boot)) = N_ResetSignalResume \<and>
   SignalResume_signaled (run [OS_notifies False, Notifier, OS_notifies True, Notifier]
              (OnMainWindowCreated 1 10 11 0 lifecycle_boot)) \<and>
   \<not> SignalResume_signaled
       (notifier_step (run [OS_notifies False, Notifier, OS_notifies True, Notifier]
              (OnMainWindowCreated 1 10 11 0 lifecycle_boot))) \<and>
   notifier (run [OS_notifies False, Notifier, OS_notifies True, Notifier, Notifier]
              (OnMainWindowCreated 1 10 11 0 lifecycle_boot)) = N_PostMessage \<and>
   \<not> SuspendComplete_signaled
       (run [OS_notifies False, Notifier, OS_notifies True, Notifier, Notifier]
              (OnMainWindowCreated 1 10 11 0 lifecycle_boot)) \<and>
   \<not> SignalResume_signaled
       (run [OS_notifies False, Notifier, OS_notifies True, Notifier, Notifier]
              (OnMainWindowCreated 1 10 11 0 lifecycle_boot)) \<and>
   \<not> SuspendComplete_signaled (run [OS_notifies False, Notifier, OS_notifies True, Notifier]
              (OnMainWindowCreated 1 10 11 0 lifecycle_boot)) \<and>
   \<not> SignalResume_signaled
       (run [OS_notifies True, Notifier, Notifier, Notifier, Notifier, MainThread]
              (OnMainWindowCreated 1 10 11 0 lifecycle_boot)) \<and>
   notifier ((run [OS_notifies True] (OnMainWindowCreated 1 10 11 0 lifecycle_boot))
               \<lparr>SuspendComplete_signaled := True\<rparr>) = N_ResetSuspendComplete \<and>
   SuspendComplete_signaled
     ((run [OS_notifies True] (OnMainWindowCreated 1 10 11 0 lifecycle_boot))
        \<lparr>SuspendComplete_signaled := True\<rparr>) \<and>
   \<not> SuspendComplete_signaled
       (notifier_step ((run [OS_notifies True] (OnMainWindowCreated 1 10 11 0 lifecycle_boot))
          \<lparr>SuspendComplete_signaled := True\<rparr>))"
proof -
  let ?stale = "[OS_notifies False, Notifier, OS_notifies True, Notifier]"
  let ?s0 = "OnMainWindowCreated 1 10 11 0 lifecycle_boot"
  let ?early = "[OS_notifies True, Notifier, Notifier, Notifier, Notifier, MainThread]"
  let ?late = "[Notifier, MainThread, Notifier, MainThread, MainThread, Notifier]"
  have early: "run ?early ?s0 =
      \<lparr>IsSuspended = False, PlmSuspendComplete = 10, PlmSignalResume = 11, Plm = Some 1,
       SuspendComplete_signaled = False, SignalResume_signaled = False, posted = 0,
       notifier = N_WaitSuspendComplete, mainThread = M_SetSuspended,
       history = [CreateEventEx_called, CreateEventEx_called,
                  RegisterAppStateChangeNotification_called, Notified True,
                  ResetEvent_PlmSuspendComplete, ResetEvent_PlmSignalResume,
                  PostMessage_WM_USER, WndProc_WM_USER]\<rparr>"
    by (simp add: OnMainWindowCreated_def lifecycle_boot_def os_step_def notifier_step_def
          main_step_def did_def Let_def)
  have late: "run (?early @ ?late) ?s0 =
      \<lparr>IsSuspended = True, PlmSuspendComplete = 10, PlmSignalResume = 11, Plm = Some 1,
       SuspendComplete_signaled = False, SignalResume_signaled = False, posted = 0,
       notifier = N_Idle, mainThread = M_WaitSignalResume,
       history = [CreateEventEx_called, CreateEventEx_called,
                  RegisterAppStateChangeNotification_called, Notified True,
                  ResetEvent_PlmSuspendComplete, ResetEvent_PlmSignalResume,
                  PostMessage_WM_USER, WndProc_WM_USER, OnSuspend_fired,
                  SetEvent_PlmSuspendComplete, Wait_PlmSuspendComplete_returned]\<rparr>"
    unfolding run_append early
    by (simp add: notifier_step_def main_step_def did_def)
  have blocked: "notifier (run ?early ?s0) = N_WaitSuspendComplete \<and>
      occurred OnSuspend_fired (run ?early ?s0) < occurred (Notified True) (run ?early ?s0)"
    unfolding early by (simp add: occurred_def)
  have released: "notifier (run (?early @ ?late) ?s0) = N_Idle"
    unfolding late by simp
  have stale: "run ?stale ?s0 =
      \<lparr>IsSuspended = False, PlmSuspendComplete = 10, PlmSignalResume = 11, Plm = Some 1,
       SuspendComplete_signaled = False, SignalResume_signaled = True, posted = 0,
       notifier = N_ResetSignalResume, mainThread = M_Idle,
       history = [CreateEventEx_called, CreateEventEx_called,
                  RegisterAppStateChangeNotification_called, Notified False,
                  SetEvent_PlmSignalResume, Notified True, ResetEvent_PlmSuspendComplete]\<rparr>"
    by (simp add: OnMainWindowCreated_def lifecycle_boot_def os_step_def notifier_step_def
          did_def Let_def)
  have at_reset: "notifier (run ?stale ?s0) = N_ResetSignalResume"
    and signalled: "SignalResume_signaled (run ?stale ?s0)"
    unfolding stale by simp_all
  have at_post: "notifier (run (?stale @ [Notifier]) ?s0) = N_PostMessage"
    unfolding run_append stale by (simp add: notifier_step_def did_def)
  from suspend_handshake_fires_before_release
    [where schedule = "?stale @ [Notifier]" and hWnd = 1 and ?event1.0 = 10 and ?event2.0 = 11
       and registerResult = 0 and t = "run ?stale ?s0"]
    at_reset at_post
  have cleared: "\<not> SignalResume_signaled (notifier_step (run ?stale ?s0))"
    and unsignalled: "\<not> SuspendComplete_signaled (run (?stale @ [Notifier]) ?s0)"
      "\<not> SignalResume_signaled (run (?stale @ [Notifier]) ?s0)"
    by (simp_all add: Let_def)
  from suspend_handshake_fires_before_release [of "?early @ ?late" 1 10 11 0] released
  have once: "occurred OnSuspend_fired (run (?early @ ?late) ?s0) =
      occurred (Notified True) (run (?early @ ?late) ?s0)"
    by (simp add: Let_def)
  from suspend_handshake_fires_before_release [of ?early 1 10 11 0] blocked
  have stays: "notifier_step (run ?early ?s0) = run ?early ?s0"
    by (simp add: Let_def)
  have hist: "history (run (?early @ ?late) ?s0) =
     [CreateEventEx_called, CreateEventEx_called, RegisterAppStateChangeNotification_called,
      Notified True, ResetEvent_PlmSuspendComplete, ResetEvent_PlmSignalResume,
      PostMessage_WM_USER, WndProc_WM_USER, OnSuspend_fired, SetEvent_PlmSuspendComplete,
      Wait_PlmSuspendComplete_returned]"
    unfolding late by simp
  from suspend_handshake_fires_before_release
    [where schedule = ?stale and hWnd = 1 and ?event1.0 = 10 and ?event2.0 = 11
       and registerResult = 0
       and t = "(run [OS_notifies True] ?s0)\<lparr>SuspendComplete_signaled := True\<rparr>"]
    at_reset
  have first_reset: "notifier ((run [OS_notifies True] ?s0)\<lparr>SuspendComplete_signaled := True\<rparr>) =
        N_ResetSuspendComplete \<longrightarrow>
      \<not> SuspendComplete_signaled
        (notifier_step ((run [OS_notifies True] ?s0)\<lparr>SuspendComplete_signaled := True\<rparr>))"
    and quiet: "\<not> SuspendComplete_signaled (run ?stale ?s0)"
    by (simp_all add: Let_def)
  have at_first: "notifier ((run [OS_notifies True] ?s0)\<lparr>SuspendComplete_signaled := True\<rparr>) =
      N_ResetSuspendComplete"
    and stale_complete: "SuspendComplete_signaled
      ((run [OS_notifies True] ?s0)\<lparr>SuspendComplete_signaled := True\<rparr>)"
    by (simp_all add: OnMainWindowCreated_def lifecycle_boot_def os_step_def did_def Let_def)
  from first_reset at_first
  have first_cleared: "\<not> SuspendComplete_signaled
      (notifier_step ((run [OS_notifies True] ?s0)\<lparr>SuspendComplete_signaled := True\<rparr>))"
    by simp
  from suspend_handshake_fires_before_release [of ?early 1 10 11 0] blocked
  have waiting_quiet: "\<not> SignalResume_signaled (run ?early ?s0)"
    by (simp add: Let_def)
  from hist released once blocked stays at_reset signalled cleared at_post unsignalled
    quiet waiting_quiet at_first stale_complete first_cleared
  show ?thesis
    by simp
qed

subsection \<open>Without the two events\<close>

lemma step_unregistered_idle:
  "Plm s = None \<Longrightarrow> notifier s = N_Idle \<Longrightarrow> mainThread s = M_Idle \<Longrightarrow> posted s = 0 \<Longrightarrow>
   step t s = s"
  by (cases t) (simp_all add: os_step_def notifier_step_def main_step_def)

lemma run_unregistered_idle:
  "Plm s = None \<Longrightarrow> notifier s = N_Idle \<Longrightarrow> mainThread s = M_Idle \<Longrightarrow> posted s = 0 \<Longrightarrow>
   run schedule s = s"
  by (induction schedule) (simp_all add: step_unregistered_idle)

text \<open>
  C8. When \<open>CreateEventEx\<close> returns null for either event, \<open>OnMainWindowCreated\<close> returns
  without calling \<open>RegisterAppStateChangeNotification\<close>: no callback is registered. From
  there on, whatever the schedule, nothing moves: neither the suspend nor the resume event
  ever fires, the main thread stays in its message loop, never marked suspended.
\<close>

theorem no_signals_no_registration_no_events:
  "event1 = 0 \<or> event2 = 0 \<Longrightarrow>
   Plm (OnMainWindowCreated hWnd event1 event2 registerResult lifecycle_boot) = None \<and>
   occurred RegisterAppStateChangeNotification_called
     (OnMainWindowCreated hWnd event1 event2 registerResult lifecycle_boot) = 0 \<and>
   run schedule (OnMainWindowCreated hWnd event1 event2 registerResult lifecycle_boot) =
     OnMainWindowCreated hWnd event1 event2 registerResult lifecycle_boot \<and>
   occurred OnSuspend_fired
     (run schedule (OnMainWindowCreated hWnd event1 event2 registerResult lifecycle_boot)) = 0 \<and>
   occurred OnResume_fired
     (run schedule (OnMainWindowCreated hWnd event1 event2 registerResult lifecycle_boot)) = 0 \<and>
   mainThread
     (run schedule (OnMainWindowCreated hWnd event1 event2 registerResult lifecycle_boot)) = M_Idle \<and>
   GetHasFocus
     (run schedule (OnMainWindowCreated hWnd event1 event2 registerResult lifecycle_boot))"
proof -
  assume failed: "event1 = 0 \<or> event2 = 0"
  let ?s0 = "OnMainWindowCreated hWnd event1 event2 registerResult lifecycle_boot"
  from failed have s0: "?s0 =
      lifecycle_boot\<lparr>PlmSuspendComplete := event1, PlmSignalResume := event2,
        history := [CreateEventEx_called, CreateEventEx_called]\<rparr>"
    by (auto simp: OnMainWindowCreated_def lifecycle_boot_def did_def Let_def)
  have idle: "Plm ?s0 = None" "notifier ?s0 = N_Idle" "mainThread ?s0 = M_Idle" "posted ?s0 = 0"
    unfolding s0 by (simp_all add: lifecycle_boot_def)
  have still: "run schedule ?s0 = ?s0"
    using idle by (rule run_unregistered_idle)
  have quiet: "occurred RegisterAppStateChangeNotification_called ?s0 = 0"
    "occurred OnSuspend_fired ?s0 = 0" "occurred OnResume_fired ?s0 = 0" "GetHasFocus ?s0"
    unfolding s0 by (simp_all add: lifecycle_boot_def occurred_def GetHasFocus_def)
  from idle quiet show ?thesis
    unfolding still by (intro conjI) simp_all
qed

theorem no_signals_no_registration_no_events_witness:
  "run [OS_notifies True, Notifier, MainThread, OS_notifies False, Notifier, MainThread]
     (OnMainWindowCreated 1 10 0 0 lifecycle_boot) =
   \<lparr>IsSuspended = False, PlmSuspendComplete = 10, PlmSignalResume = 0, Plm = None,
    SuspendComplete_signaled = False, SignalResume_signaled = False, posted = 0,
    notifier = N_Idle, mainThread = M_Idle,
    history = [CreateEventEx_called, CreateEventEx_called]\<rparr> \<and>
   occurred OnSuspend_fired
     (run [OS_notifies True, Notifier, MainThread, OS_notifies False, Notifier, MainThread]
        (OnMainWindowCreated 1 0 11 0 lifecycle_boot)) = 0"
proof -
  have second: "(10::nat) = 0 \<or> (0::nat) = 0" and first: "(0::nat) = 0 \<or> (11::nat) = 0"
    by simp_all
  have created: "OnMainWindowCreated 1 10 0 0 lifecycle_boot =
      \<lparr>IsSuspended = False, PlmSuspendComplete = 10, PlmSignalResume = 0, Plm = None,
       SuspendComplete_signaled = False, SignalResume_signaled = False, posted = 0,
       notifier = N_Idle, mainThread = M_Idle,
       history = [CreateEventEx_called, CreateEventEx_called]\<rparr>"
    by (simp add: OnMainWindowCreated_def lifecycle_boot_def did_def Let_def)
  note second_failed = no_signals_no_registration_no_events [OF second, of 1 0
      "[OS_notifies True, Notifier, MainThread, OS_notifies False, Notifier, MainThread]"]
  note first_failed = no_signals_no_registration_no_events [OF first, of 1 0
      "[OS_notifies True, Notifier, MainThread, OS_notifies False, Notifier, MainThread]"]
  have unchanged: "run [OS_notifies True, Notifier, MainThread, OS_notifies False, Notifier, MainThread]
       (OnMainWindowCreated 1 10 0 0 lifecycle_boot) =
     \<lparr>IsSuspended = False, PlmSuspendComplete = 10, PlmSignalResume = 0, Plm = None,
      SuspendComplete_signaled = False, SignalResume_signaled = False, posted = 0,
      notifier = N_Idle, mainThread = M_Idle,
      history = [CreateEventEx_called, CreateEventEx_called]\<rparr>"
    using second_failed [THEN conjunct2, THEN conjunct2, THEN conjunct1] created
    by (simp only:)
  from unchanged first_failed [THEN conjunct2, THEN conjunct2, THEN conjunct2, THEN conjunct1]
  show ?thesis
    by (intro conjI)
qed


end
